theory Spec2Isabelle
  imports Main
begin

section \<open>Python strings\<close>

text \<open>
  A Python \<open>str\<close> is a sequence of Unicode code points, so a string is a list of
  natural numbers.  The rupee sign of the money rule is the code point 8377 (U+20B9).
\<close>

type_synonym pychar = nat
type_synonym pystr = "nat list"

definition str :: "string \<Rightarrow> pystr" where
  "str s = map of_char s"

definition rupee :: pychar where
  "rupee = 8377"

text \<open>White space, the complete list of \<open>str.isspace\<close> (also the class \<open>\s\<close>).\<close>

definition is_space :: "pychar \<Rightarrow> bool" where
  "is_space c \<longleftrightarrow>
     (9 \<le> c \<and> c \<le> 13) \<or> (28 \<le> c \<and> c \<le> 32) \<or> c = 133 \<or> c = 160 \<or> c = 5760 \<or>
     (8192 \<le> c \<and> c \<le> 8202) \<or> c = 8232 \<or> c = 8233 \<or> c = 8239 \<or> c = 8287 \<or> c = 12288"

text \<open>The letters and digits of ASCII, and the two cases of an ASCII letter.\<close>

definition ascii_upper :: "pychar \<Rightarrow> bool" where
  "ascii_upper c \<longleftrightarrow> 65 \<le> c \<and> c \<le> 90"

definition ascii_lower :: "pychar \<Rightarrow> bool" where
  "ascii_lower c \<longleftrightarrow> 97 \<le> c \<and> c \<le> 122"

definition ascii_alpha :: "pychar \<Rightarrow> bool" where
  "ascii_alpha c \<longleftrightarrow> ascii_upper c \<or> ascii_lower c"

definition ascii_digit :: "pychar \<Rightarrow> bool" where
  "ascii_digit c \<longleftrightarrow> 48 \<le> c \<and> c \<le> 57"

definition to_lower :: "pychar \<Rightarrow> pychar" where
  "to_lower c = (if ascii_upper c then c + 32 else c)"

definition to_upper :: "pychar \<Rightarrow> pychar" where
  "to_upper c = (if ascii_lower c then c - 32 else c)"

text \<open>\<open>s.strip()\<close> and \<open>sep.join(xs)\<close>.\<close>

definition strip :: "pystr \<Rightarrow> pystr" where
  "strip s = rev (dropWhile is_space (rev (dropWhile is_space s)))"

fun join :: "pystr \<Rightarrow> pystr list \<Rightarrow> pystr" where
  "join sep [] = []"
| "join sep [x] = x"
| "join sep (x # y # ys) = x @ sep @ join sep (y # ys)"

text \<open>\<open>s.split()\<close>: the maximal runs of characters that are not white space.\<close>

fun split_aux :: "pystr \<Rightarrow> pystr \<Rightarrow> pystr list" where
  "split_aux cur [] = (if cur = [] then [] else [cur])"
| "split_aux cur (c # cs) =
     (if is_space c then (if cur = [] then split_aux [] cs else cur # split_aux [] cs)
      else split_aux (cur @ [c]) cs)"

definition split :: "pystr \<Rightarrow> pystr list" where
  "split s = split_aux [] s"

text \<open>\<open>s.split(sep)\<close> for a separator of one character: the pieces between the
  separators, empty pieces included.\<close>

fun split_on_aux :: "pychar \<Rightarrow> pystr \<Rightarrow> pystr \<Rightarrow> pystr list" where
  "split_on_aux sep cur [] = [cur]"
| "split_on_aux sep cur (c # cs) =
     (if c = sep then cur # split_on_aux sep [] cs else split_on_aux sep (cur @ [c]) cs)"

definition split_on :: "pychar \<Rightarrow> pystr \<Rightarrow> pystr list" where
  "split_on sep s = split_on_aux sep [] s"

text \<open>
  \<open>s.splitlines()\<close>: a line ends at a line boundary (carriage return followed by line
  feed is one boundary); there is no empty last line.
\<close>

definition is_linebreak :: "pychar \<Rightarrow> bool" where
  "is_linebreak c \<longleftrightarrow>
     (10 \<le> c \<and> c \<le> 13) \<or> (28 \<le> c \<and> c \<le> 30) \<or> c = 133 \<or> c = 8232 \<or> c = 8233"

fun splitlines_aux :: "pystr \<Rightarrow> pystr \<Rightarrow> pystr list" where
  "splitlines_aux cur [] = (if cur = [] then [] else [cur])"
| "splitlines_aux cur [c] =
     (if is_linebreak c then [cur] else [cur @ [c]])"
| "splitlines_aux cur (c # d # cs) =
     (if c = 13 \<and> d = 10 then cur # splitlines_aux [] cs
      else if is_linebreak c then cur # splitlines_aux [] (d # cs)
      else splitlines_aux (cur @ [c]) (d # cs))"

definition splitlines :: "pystr \<Rightarrow> pystr list" where
  "splitlines s = splitlines_aux [] s"

text \<open>\<open>kw in s\<close>: \<open>kw\<close> occurs in \<open>s\<close> as a contiguous substring.\<close>

fun starts_with :: "pystr \<Rightarrow> pystr \<Rightarrow> bool" where
  "starts_with [] s = True"
| "starts_with (k # ks) [] = False"
| "starts_with (k # ks) (c # cs) = (k = c \<and> starts_with ks cs)"

fun py_in :: "pystr \<Rightarrow> pystr \<Rightarrow> bool" where
  "py_in kw [] = (kw = [])"
| "py_in kw (c # cs) = (starts_with kw (c # cs) \<or> py_in kw cs)"

section \<open>The environment of the analyzer\<close>

text \<open>
  What the analyzer takes from outside the repository is a parameter of the model:
  \<^item> the sentence tokenizer, the word tokenizer and the stop word list of NLTK;
  \<^item> the order in which a Python set lists its elements, which depends on the hashes of
    the strings: \<open>set_list xs\<close> stands for \<open>list({x for x in xs})\<close>;
  \<^item> \<open>str.lower\<close> and \<open>str.isalpha\<close>, which follow the Unicode character database;
  \<^item> for the code points above 127, the tables of the module \<open>re\<close>: the word characters
    (\<open>\w\<close>), the decimal digits (\<open>\d\<close>), and the characters that a character is equal to
    when case is ignored.
\<close>

record env =
  sent_tokenize :: "pystr \<Rightarrow> pystr list"
  word_tokenize :: "pystr \<Rightarrow> pystr list"
  STOPWORDS :: "pystr set"
  set_list :: "pystr list \<Rightarrow> pystr list"
  str_lower :: "pystr \<Rightarrow> pystr"
  str_isalpha :: "pystr \<Rightarrow> bool"
  u_word :: "pychar \<Rightarrow> bool"
  u_digit :: "pychar \<Rightarrow> bool"
  u_cases :: "pychar \<Rightarrow> pychar list"

text \<open>What Python guarantees of a set: each element of \<open>xs\<close> is listed exactly once.\<close>

definition set_list_ok :: "env \<Rightarrow> bool" where
  "set_list_ok E \<longleftrightarrow> (\<forall>xs. distinct (set_list E xs) \<and> set (set_list E xs) = set xs)"

text \<open>
  A property of \<open>str.lower\<close>: white space has no other case and no character becomes
  white space, so that trimming and lowering can be done in either order.
\<close>

definition lower_strip_ok :: "env \<Rightarrow> bool" where
  "lower_strip_ok E \<longleftrightarrow> (\<forall>s. str_lower E (strip s) = strip (str_lower E s))"

text \<open>The rupee sign is a currency symbol: no word character, no digit, of one case.\<close>

definition rupee_is_symbol :: "env \<Rightarrow> bool" where
  "rupee_is_symbol E \<longleftrightarrow> \<not> u_word E rupee \<and> \<not> u_digit E rupee \<and> u_cases E rupee = []"

text \<open>The classes \<open>\w\<close> and \<open>\d\<close>, and the characters to compare with when case is
  ignored.\<close>

definition is_word :: "env \<Rightarrow> pychar \<Rightarrow> bool" where
  "is_word E c \<longleftrightarrow> (if c < 128 then ascii_alpha c \<or> ascii_digit c \<or> c = 95 else u_word E c)"

definition is_digit :: "env \<Rightarrow> pychar \<Rightarrow> bool" where
  "is_digit E c \<longleftrightarrow> (if c < 128 then ascii_digit c else u_digit E c)"

definition case_variants :: "env \<Rightarrow> pychar \<Rightarrow> pychar list" where
  "case_variants E c = (if c < 128 then [c, to_lower c, to_upper c] else c # u_cases E c)"

text \<open>\<open>list(dict.fromkeys(xs))\<close>: the elements in the order of their first occurrence.\<close>

definition fromkeys :: "'a list \<Rightarrow> 'a list" where
  "fromkeys xs = foldl (\<lambda>d x. if x \<in> set d then d else d @ [x]) [] xs"

section \<open>Regular expressions\<close>

text \<open>
  The patterns of the analyzer use literals, character sets, \<open>.\<close>, repetition of a single
  character item (greedy or lazy), sequence, alternation, optional parts, capturing groups
  and the word boundary \<open>\b\<close>; their characters are ASCII characters and the rupee sign.
  The matcher follows the backtracking order of Python's \<open>re\<close>: it lists the ways a pattern
  matches at a position, the preferred one first, so the match that \<open>re\<close> reports is the
  head of the list.
\<close>

datatype citem = Ch pychar | Rng pychar pychar | Digit | Space

datatype atom = Lit pychar | Dot | Set "citem list" | NotSet "citem list"

datatype regex =
    Atom atom
  | Rep atom nat "nat option" bool
  | Eps
  | Seq regex regex
  | Alt regex regex
  | Grp nat regex
  | WordB

fun in_item :: "env \<Rightarrow> citem \<Rightarrow> pychar \<Rightarrow> bool" where
  "in_item E (Ch k) c = (c = k)"
| "in_item E (Rng a b) c = (a \<le> c \<and> c \<le> b)"
| "in_item E Digit c = is_digit E c"
| "in_item E Space c = is_space c"

text \<open>The flag \<open>ic\<close> is \<open>re.IGNORECASE\<close>: the character fits when one of its case variants
  does.  \<open>.\<close> matches everything but a line feed.\<close>

definition candidates :: "env \<Rightarrow> bool \<Rightarrow> pychar \<Rightarrow> pychar list" where
  "candidates E ic c = (if ic then case_variants E c else [c])"

definition in_set :: "env \<Rightarrow> bool \<Rightarrow> citem list \<Rightarrow> pychar \<Rightarrow> bool" where
  "in_set E ic items c \<longleftrightarrow> list_ex (\<lambda>v. list_ex (\<lambda>i. in_item E i v) items) (candidates E ic c)"

fun atom_ok :: "env \<Rightarrow> bool \<Rightarrow> atom \<Rightarrow> pychar \<Rightarrow> bool" where
  "atom_ok E ic (Lit k) c = (k \<in> set (candidates E ic c))"
| "atom_ok E ic Dot c = (c \<noteq> 10)"
| "atom_ok E ic (Set items) c = in_set E ic items c"
| "atom_ok E ic (NotSet items) c = (\<not> in_set E ic items c)"

text \<open>
  A matcher state: the character before the position (none at the start of the text), the
  text from the position on, and the groups captured so far.  A captured group is a span of
  the text, kept as the text from its start and the text from its end; index 0 is the whole
  match.
\<close>

type_synonym span = "pystr \<times> pystr"
type_synonym mstate = "pychar option \<times> pystr \<times> span option list"

fun span_text :: "span \<Rightarrow> pystr" where
  "span_text (from_start, from_end) = take (length from_start - length from_end) from_start"

fun guard :: "bool \<Rightarrow> mstate \<Rightarrow> mstate list" where
  "guard True st = [st]"
| "guard False st = []"

text \<open>The states after 0, 1, 2, ... characters that fit the item, shortest first.\<close>

fun rep_states :: "env \<Rightarrow> bool \<Rightarrow> atom \<Rightarrow> pychar option \<Rightarrow> pystr \<Rightarrow> span option list \<Rightarrow> mstate list" where
  "rep_states E ic a p [] g = [(p, [], g)]"
| "rep_states E ic a p (c # cs) g =
     (p, c # cs, g) # (if atom_ok E ic a c then rep_states E ic a (Some c) cs g else [])"

text \<open>\<open>{mn,mx}\<close>: at most \<open>mx\<close> characters, at least \<open>mn\<close>; a greedy repetition prefers the
  longest run, a lazy one the shortest.\<close>

fun at_most :: "nat option \<Rightarrow> mstate list \<Rightarrow> mstate list" where
  "at_most None sts = sts"
| "at_most (Some m) sts = take (Suc m) sts"

fun preferred :: "bool \<Rightarrow> mstate list \<Rightarrow> mstate list" where
  "preferred True sts = rev sts"
| "preferred False sts = sts"

text \<open>\<open>\b\<close>: exactly one of the two characters around the position is a word character.\<close>

fun prev_is_word :: "env \<Rightarrow> pychar option \<Rightarrow> bool" where
  "prev_is_word E None = False"
| "prev_is_word E (Some c) = is_word E c"

fun next_is_word :: "env \<Rightarrow> pystr \<Rightarrow> bool" where
  "next_is_word E [] = False"
| "next_is_word E (c # cs) = is_word E c"

definition at_boundary :: "env \<Rightarrow> pychar option \<Rightarrow> pystr \<Rightarrow> bool" where
  "at_boundary E p rest \<longleftrightarrow> prev_is_word E p \<noteq> next_is_word E rest"

fun set_group :: "nat \<Rightarrow> pystr \<Rightarrow> mstate \<Rightarrow> mstate" where
  "set_group i from_start (p, rest, g) = (p, rest, g[i := Some (from_start, rest)])"

fun matches :: "env \<Rightarrow> bool \<Rightarrow> regex \<Rightarrow> mstate \<Rightarrow> mstate list" where
  "matches E ic (Atom a) (p, [], g) = []"
| "matches E ic (Atom a) (p, c # cs, g) = guard (atom_ok E ic a c) (Some c, cs, g)"
| "matches E ic (Rep a mn mx greedy) (p, rest, g) =
     preferred greedy (drop mn (at_most mx (rep_states E ic a p rest g)))"
| "matches E ic Eps st = [st]"
| "matches E ic (Seq r1 r2) st = concat (map (matches E ic r2) (matches E ic r1 st))"
| "matches E ic (Alt r1 r2) st = matches E ic r1 st @ matches E ic r2 st"
| "matches E ic (Grp i r) (p, rest, g) = map (set_group i rest) (matches E ic r (p, rest, g))"
| "matches E ic WordB (p, rest, g) = guard (at_boundary E p rest) (p, rest, g)"

text \<open>
  A compiled pattern is the expression with its number of groups.  A match object is the
  list of group spans.  \<open>match_here\<close> is the preferred match that starts at the position,
  \<open>advancing_here\<close> the preferred one among those that take at least one character.
\<close>

type_synonym pattern = "regex \<times> nat"
type_synonym match = "span option list"

fun first_match :: "pystr \<Rightarrow> mstate list \<Rightarrow> match option" where
  "first_match from_start [] = None"
| "first_match from_start ((p, rest, g) # sts) = Some (g[0 := Some (from_start, rest)])"

fun first_advancing :: "pystr \<Rightarrow> mstate list \<Rightarrow> match option" where
  "first_advancing from_start [] = None"
| "first_advancing from_start ((p, rest, g) # sts) =
     (if length rest < length from_start then Some (g[0 := Some (from_start, rest)])
      else first_advancing from_start sts)"

fun matches_here :: "env \<Rightarrow> bool \<Rightarrow> pattern \<Rightarrow> pychar option \<Rightarrow> pystr \<Rightarrow> mstate list" where
  "matches_here E ic (r, n) p rest = matches E ic r (p, rest, replicate (Suc n) None)"

definition match_here :: "env \<Rightarrow> bool \<Rightarrow> pattern \<Rightarrow> pychar option \<Rightarrow> pystr \<Rightarrow> match option" where
  "match_here E ic pat p rest = first_match rest (matches_here E ic pat p rest)"

definition advancing_here :: "env \<Rightarrow> bool \<Rightarrow> pattern \<Rightarrow> pychar option \<Rightarrow> pystr \<Rightarrow> match option" where
  "advancing_here E ic pat p rest = first_advancing rest (matches_here E ic pat p rest)"

text \<open>\<open>m.group(i)\<close> and \<open>m.groups()\<close>; a group that took no part in the match is \<open>None\<close>.\<close>

definition group :: "match \<Rightarrow> nat \<Rightarrow> pystr option" where
  "group m i = map_option span_text (m ! i)"

definition groups :: "match \<Rightarrow> pystr option list" where
  "groups m = map (map_option span_text) (tl m)"

text \<open>The number of characters of the whole match.\<close>

fun match_len :: "match \<Rightarrow> nat" where
  "match_len [] = 0"
| "match_len (None # gs) = 0"
| "match_len (Some (from_start, from_end) # gs) = length from_start - length from_end"

text \<open>\<open>re.search\<close>: the match at the leftmost position that has one.\<close>

fun search_from :: "env \<Rightarrow> bool \<Rightarrow> pattern \<Rightarrow> pychar option \<Rightarrow> pystr \<Rightarrow> match option" where
  "search_from E ic pat p [] = match_here E ic pat p []"
| "search_from E ic pat p (c # cs) =
     (case match_here E ic pat p (c # cs) of
        Some m \<Rightarrow> Some m
      | None \<Rightarrow> search_from E ic pat (Some c) cs)"

definition search :: "env \<Rightarrow> bool \<Rightarrow> pattern \<Rightarrow> pystr \<Rightarrow> match option" where
  "search E ic pat s = search_from E ic pat None s"

text \<open>
  \<open>re.findall\<close> for a pattern with at most one group: the successive matches from left to
  right, none overlapping another; each contributes its group 1 (the empty string when the
  group took no part), or the whole match when the pattern has no group.  The search goes
  on where the last match ended; after an empty match the next match at the same position
  must take a character.  The counter is the number of characters of the last match still
  to pass.
\<close>

fun found_text :: "pattern \<Rightarrow> match \<Rightarrow> pystr" where
  "found_text (r, 0) m = (case group m 0 of None \<Rightarrow> [] | Some s \<Rightarrow> s)"
| "found_text (r, Suc n) m = (case group m 1 of None \<Rightarrow> [] | Some s \<Rightarrow> s)"

fun findall_from :: "env \<Rightarrow> bool \<Rightarrow> pattern \<Rightarrow> nat \<Rightarrow> pychar option \<Rightarrow> pystr \<Rightarrow> pystr list" where
  "findall_from E ic pat 0 p [] =
     (case match_here E ic pat p [] of None \<Rightarrow> [] | Some m \<Rightarrow> [found_text pat m])"
| "findall_from E ic pat (Suc k) p [] = []"
| "findall_from E ic pat (Suc k) p (c # cs) = findall_from E ic pat k (Some c) cs"
| "findall_from E ic pat 0 p (c # cs) =
     (case match_here E ic pat p (c # cs) of
        None \<Rightarrow> findall_from E ic pat 0 (Some c) cs
      | Some m \<Rightarrow>
          (case match_len m of
             Suc k \<Rightarrow> found_text pat m # findall_from E ic pat k (Some c) cs
           | 0 \<Rightarrow>
               (case advancing_here E ic pat p (c # cs) of
                  None \<Rightarrow> found_text pat m # findall_from E ic pat 0 (Some c) cs
                | Some m' \<Rightarrow>
                    found_text pat m # found_text pat m' #
                    findall_from E ic pat (match_len m' - 1) (Some c) cs)))"

definition findall :: "env \<Rightarrow> bool \<Rightarrow> pattern \<Rightarrow> pystr \<Rightarrow> pystr list" where
  "findall E ic pat s = findall_from E ic pat 0 None s"

text \<open>\<open>re.sub\<close> with a replacement that has no escape: every match, found as by
  \<open>findall\<close>, is replaced by \<open>repl\<close>.\<close>

fun sub_from :: "env \<Rightarrow> bool \<Rightarrow> pattern \<Rightarrow> pystr \<Rightarrow> nat \<Rightarrow> pychar option \<Rightarrow> pystr \<Rightarrow> pystr" where
  "sub_from E ic pat repl 0 p [] =
     (case match_here E ic pat p [] of None \<Rightarrow> [] | Some m \<Rightarrow> repl)"
| "sub_from E ic pat repl (Suc k) p [] = []"
| "sub_from E ic pat repl (Suc k) p (c # cs) = sub_from E ic pat repl k (Some c) cs"
| "sub_from E ic pat repl 0 p (c # cs) =
     (case match_here E ic pat p (c # cs) of
        None \<Rightarrow> c # sub_from E ic pat repl 0 (Some c) cs
      | Some m \<Rightarrow>
          (case match_len m of
             Suc k \<Rightarrow> repl @ sub_from E ic pat repl k (Some c) cs
           | 0 \<Rightarrow>
               (case advancing_here E ic pat p (c # cs) of
                  None \<Rightarrow> repl @ c # sub_from E ic pat repl 0 (Some c) cs
                | Some m' \<Rightarrow> repl @ repl @ sub_from E ic pat repl (match_len m' - 1) (Some c) cs)))"

definition sub :: "env \<Rightarrow> bool \<Rightarrow> pattern \<Rightarrow> pystr \<Rightarrow> pystr \<Rightarrow> pystr" where
  "sub E ic pat repl s = sub_from E ic pat repl 0 None s"

subsection \<open>Writing patterns\<close>

definition lit :: "string \<Rightarrow> regex" where
  "lit s = foldr (\<lambda>c r. Seq (Atom (Lit (of_char c))) r) s Eps"

definition seqs :: "regex list \<Rightarrow> regex" where
  "seqs rs = foldr Seq rs Eps"

definition alts :: "regex \<Rightarrow> regex list \<Rightarrow> regex" where
  "alts r rs = foldl Alt r rs"

definition opt :: "regex \<Rightarrow> regex" where
  "opt r = Alt r Eps"

text \<open>\<open>a+\<close>, \<open>a*\<close>, \<open>a+?\<close>, \<open>a?\<close>, \<open>a{m,n}\<close> and \<open>a{m,}\<close> for a character item \<open>a\<close>.\<close>

definition many1 :: "atom \<Rightarrow> regex" where
  "many1 a = Rep a 1 None True"

definition many0 :: "atom \<Rightarrow> regex" where
  "many0 a = Rep a 0 None True"

definition lazy1 :: "atom \<Rightarrow> regex" where
  "lazy1 a = Rep a 1 None False"

definition maybe :: "atom \<Rightarrow> regex" where
  "maybe a = Rep a 0 (Some 1) True"

definition counted :: "atom \<Rightarrow> nat \<Rightarrow> nat \<Rightarrow> regex" where
  "counted a m n = Rep a m (Some n) True"

definition at_least :: "atom \<Rightarrow> nat \<Rightarrow> regex" where
  "at_least a m = Rep a m None True"

definition ch :: "char \<Rightarrow> citem" where
  "ch c = Ch (of_char c)"

definition rng :: "char \<Rightarrow> char \<Rightarrow> citem" where
  "rng a b = Rng (of_char a) (of_char b)"


section \<open>The pattern library\<close>

definition ws1 :: regex where
  "ws1 = many1 (Set [Space])"

definition ws0 :: regex where
  "ws0 = many0 (Set [Space])"

definition digit :: atom where
  "digit = Set [Digit]"

text \<open>\<open>[A-Za-z0-9 ,]+\<close>\<close>

definition free_text :: regex where
  "free_text = many1 (Set [rng CHR ''A'' CHR ''Z'', rng CHR ''a'' CHR ''z'', rng CHR ''0'' CHR ''9'',
                           ch CHR '' '', ch CHR '',''])"

text \<open>\<open>[-/]\<close>\<close>

definition date_sep :: regex where
  "date_sep = Atom (Set [ch CHR ''-'', ch CHR ''/''])"

definition month_names :: regex where
  "month_names = alts (lit ''Jan'')
     [lit ''Feb'', lit ''March'', lit ''Mar'', lit ''Apr'', lit ''May'', lit ''Jun'', lit ''Jul'',
      lit ''Aug'', lit ''Sep'', lit ''Sept'', lit ''Oct'', lit ''Nov'', lit ''Dec'', lit ''January'',
      lit ''February'', lit ''March'', lit ''April'', lit ''May'', lit ''June'', lit ''July'',
      lit ''August'', lit ''September'', lit ''October'', lit ''November'', lit ''December'']"

definition DATE_PAT :: pattern where
  "DATE_PAT = (Grp 1 (alts
     (seqs [WordB, counted digit 1 2,
            opt (alts (lit ''st'') [lit ''nd'', lit ''rd'', lit ''th'']),
            ws1, month_names, WordB, ws1, counted digit 2 4])
     [seqs [WordB, counted digit 1 2, date_sep, counted digit 1 2, date_sep, counted digit 2 4, WordB],
      seqs [WordB, counted digit 4 4, date_sep, counted digit 1 2, date_sep, counted digit 1 2, WordB],
      seqs [WordB, lit ''effective'', ws1, lit ''as'', ws1, lit ''of'', ws1, free_text, WordB],
      seqs [WordB, lit ''effective'', ws1, lit ''date'', ws0,
            maybe (Set [ch CHR '':'', ch CHR ''-'']), ws0, free_text, WordB]]), 1)"

text \<open>The fallback of the date extractor: \<open>\bon\s+[A-Za-z0-9 ,]+\s+\d{4}\b\<close>\<close>

definition DATE_FALLBACK_PAT :: pattern where
  "DATE_FALLBACK_PAT = (seqs [WordB, lit ''on'', ws1, free_text, ws1, counted digit 4 4, WordB], 0)"

text \<open>\<open>\d[\d,]*(?:\.\d+)?\<close>\<close>

definition amount :: regex where
  "amount = seqs [Atom digit, many0 (Set [Digit, ch CHR '','']),
                  opt (seqs [Atom (Lit (of_char CHR ''.'')), many1 digit])]"

definition MONEY_PAT :: pattern where
  "MONEY_PAT = (Grp 1 (alts
     (seqs [WordB, Atom (Lit rupee), maybe (Set [Space]), amount, WordB])
     [seqs [WordB, lit ''Rs'', maybe (Lit (of_char CHR ''.'')), maybe (Set [Space]), amount, WordB],
      seqs [WordB, lit ''USD'', maybe (Set [Space]), amount, WordB],
      seqs [WordB, lit ''EUR'', maybe (Set [Space]), amount, WordB],
      seqs [WordB, amount, maybe (Set [Space]),
            alts (lit ''dollars'') [lit ''rupees'', lit ''INR'', lit ''USD'', lit ''EUR''], WordB]]), 1)"

definition OBL_KEYWORDS :: "pystr list" where
  "OBL_KEYWORDS = map str [''shall'', ''must'', ''agree'', ''agrees'', ''obligat'', ''responsib'',
     ''undertake'', ''require'', ''warrant'', ''covenant'', ''will'']"

definition TERMINATION_KEYWORDS :: "pystr list" where
  "TERMINATION_KEYWORDS = map str [''terminate'', ''termination'', ''expire'', ''expiry'',
     ''notice period'', ''notice'', ''breach'', ''cancel'', ''cancelled'']"

text \<open>
  The three party patterns, in the order of the list:
  \<^item> \<open>\bthis\s+agreement\s+(?:is\s+)?(?:made|entered\s+into)\s+(?:on\s+[A-Za-z0-9 ,]+)?\s*(?:between|by and between)\s+(.+?)\s+and\s+(.+?)\b\<close>
  \<^item> \<open>\bbetween\s+(.+?)\s+\(|between\s+(.+?)\s+and\s+(.+?)\b\<close>
  \<^item> \<open>\bby\s+and\s+between\s+(.+?)\s+and\s+(.+?)\b\<close>
\<close>

definition PARTY_PATTERNS :: "pattern list" where
  "PARTY_PATTERNS =
     [(seqs [WordB, lit ''this'', ws1, lit ''agreement'', ws1, opt (seqs [lit ''is'', ws1]),
             Alt (lit ''made'') (seqs [lit ''entered'', ws1, lit ''into'']), ws1,
             opt (seqs [lit ''on'', ws1, free_text]), ws0,
             Alt (lit ''between'') (lit ''by and between''), ws1,
             Grp 1 (lazy1 Dot), ws1, lit ''and'', ws1, Grp 2 (lazy1 Dot), WordB], 2),
      (Alt (seqs [WordB, lit ''between'', ws1, Grp 1 (lazy1 Dot), ws1, lit ''(''])
           (seqs [lit ''between'', ws1, Grp 2 (lazy1 Dot), ws1, lit ''and'', ws1,
                  Grp 3 (lazy1 Dot), WordB]), 3),
      (seqs [WordB, lit ''by'', ws1, lit ''and'', ws1, lit ''between'', ws1,
             Grp 1 (lazy1 Dot), ws1, lit ''and'', ws1, Grp 2 (lazy1 Dot), WordB], 2)]"

text \<open>The patterns of the party cleaning: \<open>\s{2,}\<close> and \<open>\([^)]+\)\<close>; and the pattern of the
  heading heuristic: \<open>\b([A-Z][A-Z0-9 &(),\.-]{3,})\b\<close>.\<close>

definition SPACES_PAT :: pattern where
  "SPACES_PAT = (at_least (Set [Space]) 2, 0)"

definition PAREN_PAT :: pattern where
  "PAREN_PAT = (seqs [lit ''('', many1 (NotSet [ch CHR '')'']), lit '')''], 0)"

definition CAPS_PAT :: pattern where
  "CAPS_PAT = (seqs [WordB,
     Grp 1 (seqs [Atom (Set [rng CHR ''A'' CHR ''Z'']),
                  at_least (Set [rng CHR ''A'' CHR ''Z'', rng CHR ''0'' CHR ''9'', ch CHR '' '', ch CHR ''&'',
                                 ch CHR ''('', ch CHR '')'', ch CHR '','', ch CHR ''.'', ch CHR ''-'']) 3]),
     WordB], 1)"

section \<open>The extractors\<close>

text \<open>The matches of the date extractor, in the order of their discovery: those of the
  date pattern, cut at line feeds, then those of the fallback pattern.\<close>

definition date_matches :: "env \<Rightarrow> pystr \<Rightarrow> pystr list" where
  "date_matches E text =
     (let matches = findall E True DATE_PAT text;
          flat = (if matches \<noteq> []
                  then concat (map (\<lambda>grp. filter (\<lambda>m. m \<noteq> []) (split_on 10 grp)) matches)
                  else []);
          fallback = findall E True DATE_FALLBACK_PAT text
      in flat @ fallback)"

definition extract_dates :: "env \<Rightarrow> pystr \<Rightarrow> pystr list" where
  "extract_dates E text =
     (let dates = set_list E (map strip (date_matches E text))
      in take 10 dates)"

definition extract_money :: "env \<Rightarrow> pystr \<Rightarrow> pystr list" where
  "extract_money E text =
     (let matches = findall E True MONEY_PAT text;
          cleaned = map strip matches
      in take 10 (fromkeys cleaned))"

text \<open>The cleaning of a captured party: runs of white space collapsed, trimmed, the
  parenthetical short forms removed, trimmed again.\<close>

definition clean_group :: "env \<Rightarrow> pystr \<Rightarrow> pystr" where
  "clean_group E g =
     strip (sub E False PAREN_PAT [] (strip (sub E False SPACES_PAT (str '' '') g)))"

text \<open>\<open>[g for g in m.groups() if g]\<close>: the groups that took part and are not empty.\<close>

fun truthy :: "pystr option list \<Rightarrow> pystr list" where
  "truthy [] = []"
| "truthy (None # gs) = truthy gs"
| "truthy (Some g # gs) = (if g = [] then truthy gs else g # truthy gs)"

fun add_groups :: "env \<Rightarrow> pystr list \<Rightarrow> pystr list \<Rightarrow> pystr list" where
  "add_groups E found [] = found"
| "add_groups E found (g # gs) =
     (let g_clean = clean_group E g
      in add_groups E (if g_clean \<noteq> [] \<and> length g_clean > 2 then found @ [g_clean] else found) gs)"

text \<open>The loop over \<open>PARTY_PATTERNS\<close>; it stops at the first pattern that leaves a party.\<close>

fun party_loop :: "env \<Rightarrow> pattern list \<Rightarrow> pystr \<Rightarrow> pystr list \<Rightarrow> pystr list" where
  "party_loop E [] text_clean found = found"
| "party_loop E (pat # pats) text_clean found =
     (case search E True pat text_clean of
        None \<Rightarrow> party_loop E pats text_clean found
      | Some m \<Rightarrow>
          (let found' = add_groups E found (truthy (groups m))
           in if found' \<noteq> [] then found' else party_loop E pats text_clean found'))"

text \<open>The loop of the heading heuristic over the capitalized runs.\<close>

fun caps_loop :: "env \<Rightarrow> pystr list \<Rightarrow> pystr list \<Rightarrow> pystr list" where
  "caps_loop E uniq [] = uniq"
| "caps_loop E uniq (c # caps) =
     (let c_s = strip c;
          uniq' = (if str_lower E c_s \<notin> STOPWORDS E \<and> length c_s > 3 \<and> c_s \<notin> set uniq
                   then uniq @ [c_s] else uniq)
      in if length uniq' \<ge> 2 then uniq' else caps_loop E uniq' caps)"

definition extract_parties :: "env \<Rightarrow> pystr \<Rightarrow> pystr list" where
  "extract_parties E text =
     (let text_clean = join (str '' '') (split text);
          found = party_loop E PARTY_PATTERNS text_clean [];
          found = (if found = []
                   then (let head = take 40 (splitlines text);
                             caps = findall E False CAPS_PAT (join [10] head)
                         in caps_loop E [] caps)
                   else found)
      in take 2 found)"

text \<open>The inner loop over the keywords stops at the first keyword found in the sentence.\<close>

fun any_keyword :: "pystr \<Rightarrow> pystr list \<Rightarrow> bool" where
  "any_keyword low [] = False"
| "any_keyword low (kw # kws) = (if py_in kw low then True else any_keyword low kws)"

fun sentence_loop :: "env \<Rightarrow> pystr list \<Rightarrow> pystr list \<Rightarrow> pystr list" where
  "sentence_loop E keywords [] = []"
| "sentence_loop E keywords (s # sents) =
     (if any_keyword (str_lower E s) keywords then strip s # sentence_loop E keywords sents
      else sentence_loop E keywords sents)"

definition find_sentences_by_keywords :: "env \<Rightarrow> pystr \<Rightarrow> pystr list \<Rightarrow> pystr list" where
  "find_sentences_by_keywords E text keywords = sentence_loop E keywords (sent_tokenize E text)"

section \<open>The keyword summary\<close>

text \<open>
  A \<open>Counter\<close> is a dictionary, which keeps its keys in the order of their insertion: an
  association list.  \<open>most_common(n)\<close> is the list sorted by decreasing count, the entries
  of equal count in their order in the dictionary, cut to \<open>n\<close> entries (none when \<open>n\<close> is
  negative).
\<close>

fun count_up :: "'a \<Rightarrow> ('a \<times> nat) list \<Rightarrow> ('a \<times> nat) list" where
  "count_up w [] = [(w, 1)]"
| "count_up w ((k, n) # d) = (if k = w then (k, n + 1) # d else (k, n) # count_up w d)"

definition Counter :: "'a list \<Rightarrow> ('a \<times> nat) list" where
  "Counter ws = foldl (\<lambda>d w. count_up w d) [] ws"

definition most_common :: "int \<Rightarrow> ('a \<times> nat) list \<Rightarrow> ('a \<times> nat) list" where
  "most_common n d = take (nat n) (sort_key (\<lambda>kv. - int (snd kv)) d)"

text \<open>The words that are counted: alphabetic, in lower case, not a stop word.\<close>

definition content_words :: "env \<Rightarrow> pystr \<Rightarrow> pystr list" where
  "content_words E text =
     map (str_lower E)
       (filter (\<lambda>w. str_isalpha E w \<and> str_lower E w \<notin> STOPWORDS E) (word_tokenize E text))"

text \<open>\<open>keyword_summary(text, top_n=10)\<close>: the argument \<open>top_n\<close> may be left out.\<close>

definition keyword_summary :: "env \<Rightarrow> pystr \<Rightarrow> int option \<Rightarrow> pystr list" where
  "keyword_summary E text top_n_arg =
     (let top_n = (case top_n_arg of None \<Rightarrow> 10 | Some n \<Rightarrow> n);
          words = content_words E text;
          freqs = Counter words;
          common = map fst (most_common top_n freqs)
      in common)"

section \<open>Loading a file and analyzing it\<close>

datatype error = FileNotFoundError pystr | RuntimeError pystr | ReadError

text \<open>
  The file system and the document reader, as far as \<open>load_file\<close> uses them: whether a path
  exists, the decoded text of a file, whether \<open>python-docx\<close> could be imported, and the
  paragraphs of a document.
\<close>

record files =
  path_exists :: "pystr \<Rightarrow> bool"
  file_text :: "pystr \<Rightarrow> error + pystr"
  docx_installed :: bool
  docx_paragraphs :: "pystr \<Rightarrow> error + pystr list"

definition read_docx :: "files \<Rightarrow> pystr \<Rightarrow> error + pystr" where
  "read_docx F path =
     (if \<not> docx_installed F
      then Inl (RuntimeError (str ''python-docx not installed. Install via pip install python-docx''))
      else (case docx_paragraphs F path of
              Inl e \<Rightarrow> Inl e
            | Inr full \<Rightarrow> Inr (join [10] full)))"

definition read_text :: "files \<Rightarrow> pystr \<Rightarrow> error + pystr" where
  "read_text F path = file_text F path"

text \<open>
  \<open>Path(p).name\<close> on a POSIX system: the last component of the path, where empty
  components and the components \<open>.\<close> do not count.  \<open>Path(p).suffix\<close>: the name from its
  last dot on, when that dot is neither its first nor its last character.
\<close>

definition path_name :: "pystr \<Rightarrow> pystr" where
  "path_name p =
     (case filter (\<lambda>s. s \<noteq> [] \<and> s \<noteq> [46]) (split_on 47 p) of
        [] \<Rightarrow> []
      | x # xs \<Rightarrow> last (x # xs))"

definition suffix :: "pystr \<Rightarrow> pystr" where
  "suffix p =
     (let name = path_name p;
          ext = takeWhile (\<lambda>c. c \<noteq> 46) (rev name)
      in if 46 \<in> set name \<and> ext \<noteq> [] \<and> Suc (length ext) < length name
         then drop (length name - Suc (length ext)) name else [])"

definition load_file :: "files \<Rightarrow> env \<Rightarrow> pystr \<Rightarrow> error + pystr" where
  "load_file F E path_str =
     (if \<not> path_exists F path_str then Inl (FileNotFoundError (path_str @ str '' not found''))
      else if str_lower E (suffix path_str) \<in> set [str ''.docx''] then read_docx F path_str
      else read_text F path_str)"

record analysis =
  parties :: "pystr list"
  dates_found :: "pystr list"
  money_values :: "pystr list"
  obligation_sentences :: "pystr list"
  termination_sentences :: "pystr list"
  top_keywords :: "pystr list"
  short_summary :: pystr

text \<open>The body of \<open>analyze_contract\<close> once the text is loaded.\<close>

definition analyze_text :: "env \<Rightarrow> pystr \<Rightarrow> analysis" where
  "analyze_text E text =
     (let parties = extract_parties E text;
          dates = extract_dates E text;
          money = extract_money E text;
          obligations = find_sentences_by_keywords E text OBL_KEYWORDS;
          termination = find_sentences_by_keywords E text TERMINATION_KEYWORDS;
          keywords = keyword_summary E text (Some 12);
          sents = sent_tokenize E text;
          short_summary = (if sents \<noteq> [] then join (str '' '') (take 4 sents) else [])
      in \<lparr> parties = parties,
           dates_found = dates,
           money_values = money,
           obligation_sentences = take 10 obligations,
           termination_sentences = take 8 termination,
           top_keywords = keywords,
           short_summary = short_summary \<rparr>)"

definition analyze_contract :: "files \<Rightarrow> env \<Rightarrow> pystr \<Rightarrow> error + analysis" where
  "analyze_contract F E path =
     (case load_file F E path of
        Inl e \<Rightarrow> Inl e
      | Inr text \<Rightarrow> Inr (analyze_text E text))"

section \<open>Concrete environments and texts\<close>

text \<open>
  A small environment for running the analyzer on ASCII texts: every non-empty text is one
  sentence, the words are the runs between white space, the only stop word is \<open>the\<close>, a set
  lists its elements in the order of their first insertion, \<open>lower\<close> and \<open>isalpha\<close> know
  the ASCII letters, and no character above 127 is a word character, a digit or of two
  cases.  The environment \<open>other_env\<close> differs in the order of a set only: the element
  inserted last comes first.  The file system \<open>no_files\<close> has no file at all.
\<close>

definition one_sentence :: "pystr \<Rightarrow> pystr list" where
  "one_sentence t = (if t = [] then [] else [t])"

definition ascii_str_lower :: "pystr \<Rightarrow> pystr" where
  "ascii_str_lower s = map to_lower s"

definition ascii_isalpha :: "pystr \<Rightarrow> bool" where
  "ascii_isalpha s \<longleftrightarrow> s \<noteq> [] \<and> list_all ascii_alpha s"

definition no_char :: "pychar \<Rightarrow> bool" where
  "no_char c = False"

definition no_cases :: "pychar \<Rightarrow> pychar list" where
  "no_cases c = []"


definition demo_env :: env where
  "demo_env = \<lparr> sent_tokenize = one_sentence, word_tokenize = split,
                STOPWORDS = {str ''the''}, set_list = remdups,
                str_lower = ascii_str_lower, str_isalpha = ascii_isalpha,
                u_word = no_char, u_digit = no_char, u_cases = no_cases \<rparr>"


definition never :: "pystr \<Rightarrow> bool" where
  "never p = False"

definition unreadable :: "pystr \<Rightarrow> error + pystr" where
  "unreadable p = Inl ReadError"

definition no_paragraphs :: "pystr \<Rightarrow> error + pystr list" where
  "no_paragraphs p = Inl ReadError"

definition no_files :: files where
  "no_files = \<lparr> path_exists = never, file_text = unreadable,
                docx_installed = False, docx_paragraphs = no_paragraphs \<rparr>"

text \<open>The text of the scenario of the specification.\<close>

definition scenario :: pystr where
  "scenario = str ''This Agreement is made between Acme Corp and Beta LLC on 1 January 2024. Acme shall pay Beta '' @ [rupee] @ str ''50,000 within 30 days. This Agreement may be terminated with 30 days notice.''"

text \<open>A text that names the same party twice, and a text with two dates.\<close>

definition twice_acme :: pystr where
  "twice_acme = str ''between Acme and Acme''"

definition two_dates :: pystr where
  "two_dates = str ''1/2/2024 3/4/2025''"


text \<open>A keyword that is not empty and neither starts nor ends with white space.\<close>

definition trimmed :: "pystr \<Rightarrow> bool" where
  "trimmed kw \<longleftrightarrow> kw \<noteq> [] \<and> \<not> is_space (hd kw) \<and> \<not> is_space (last kw)"

text \<open>A text of one sentence, with white space at its end.\<close>

definition notice_text :: pystr where
  "notice_text = str ''We shall give notice ''"

text \<open>The position of the first occurrence of an element (the length of the list when
  there is none), and the order of the ranking: more occurrences, or as many and an
  earlier first occurrence.\<close>

definition first_index :: "'a list \<Rightarrow> 'a \<Rightarrow> nat" where
  "first_index xs a = length (takeWhile (\<lambda>x. x \<noteq> a) xs)"

definition outranks :: "'a list \<Rightarrow> 'a \<Rightarrow> 'a \<Rightarrow> bool" where
  "outranks ws a b \<longleftrightarrow>
     count_list ws b < count_list ws a \<or>
     (count_list ws a = count_list ws b \<and> first_index ws a < first_index ws b)"

text \<open>A text of twelve distinct words, and a text in which two words occur twice, after a
  word that occurs once.\<close>

definition twelve_words :: pystr where
  "twelve_words = str ''alpha beta gamma delta epsilon zeta eta theta iota kappa lambda mu''"

definition tie_text :: pystr where
  "tie_text = str ''tax fee Rent fee rent''"


section \<open>Evaluation\<close>

lemma replicate_numeral: "replicate (numeral k) x = x # replicate (pred_numeral k) x"
  by (simp add: numeral_eq_Suc)

lemma list_update_numeral: "(x # xs)[numeral k := y] = x # xs[pred_numeral k := y]"
  by (simp add: numeral_eq_Suc)

lemmas pattern_defs = lit_def seqs_def alts_def opt_def many1_def many0_def lazy1_def maybe_def
  counted_def at_least_def ch_def rng_def ws1_def ws0_def digit_def free_text_def date_sep_def
  month_names_def amount_def rupee_def

lemmas char_defs = is_space_def ascii_digit_def ascii_upper_def ascii_lower_def ascii_alpha_def
  is_word_def is_digit_def to_lower_def to_upper_def case_variants_def candidates_def in_set_def
  at_boundary_def

lemmas regex_defs = replicate_numeral list_update_numeral match_here_def advancing_here_def
  search_def findall_def sub_def groups_def group_def

lemma set_list_ok_demo: "set_list_ok demo_env"
  by (simp add: set_list_ok_def demo_env_def)


section \<open>The caps of the analysis record\<close>

lemma length_keyword_summary: "length (keyword_summary E text (Some n)) \<le> nat n"
  by (simp add: keyword_summary_def most_common_def)

lemma length_extract_parties: "length (extract_parties E text) \<le> 2"
  by (simp add: extract_parties_def Let_def)

lemma length_extract_dates: "length (extract_dates E text) \<le> 10"
  by (simp add: extract_dates_def Let_def)

lemma length_extract_money: "length (extract_money E text) \<le> 10"
  by (simp add: extract_money_def Let_def)

text \<open>
  Claim C6.  For every input text the analysis record keeps all its caps: at most 2
  parties, 10 dates, 10 money values, 10 obligation sentences, 8 termination sentences
  and 12 top keywords.
\<close>

theorem analysis_caps:
  "length (parties (analyze_text E text)) \<le> 2 \<and>
   length (dates_found (analyze_text E text)) \<le> 10 \<and>
   length (money_values (analyze_text E text)) \<le> 10 \<and>
   length (obligation_sentences (analyze_text E text)) \<le> 10 \<and>
   length (termination_sentences (analyze_text E text)) \<le> 8 \<and>
   length (top_keywords (analyze_text E text)) \<le> 12"
proof -
  have "length (keyword_summary E text (Some 12)) \<le> 12"
    using length_keyword_summary [of E "text" 12] by simp
  then show ?thesis
    by (simp add: analyze_text_def Let_def length_extract_parties length_extract_dates
        length_extract_money)
qed

section \<open>A path that names no file\<close>

text \<open>
  Claim C10.  \<open>analyze_contract\<close> takes a path, not a text: for a path that names no
  existing file it raises \<open>FileNotFoundError\<close> (with the message "<path> not found"), and
  no analysis record is produced, whatever the environment of the extractors is.
\<close>

theorem analyze_contract_missing_file:
  "\<not> path_exists F path \<Longrightarrow>
   analyze_contract F E path = Inl (FileNotFoundError (path @ str '' not found''))"
  by (simp add: analyze_contract_def load_file_def)

theorem analyze_contract_missing_file_witness:
  "\<not> path_exists no_files (str ''contract.txt'') \<and>
   analyze_contract no_files demo_env (str ''contract.txt'') =
     Inl (FileNotFoundError (str ''contract.txt'' @ str '' not found''))"
  using analyze_contract_missing_file [of no_files "str ''contract.txt''" demo_env]
  by (simp add: no_files_def never_def)

section \<open>The empty text\<close>

lemma findall_DATE_empty: "findall E True DATE_PAT [] = []"
  by (simp add: DATE_PAT_def pattern_defs char_defs regex_defs)

lemma findall_FALLBACK_empty: "findall E True DATE_FALLBACK_PAT [] = []"
  by (simp add: DATE_FALLBACK_PAT_def pattern_defs char_defs regex_defs)

lemma findall_MONEY_empty: "findall E True MONEY_PAT [] = []"
  by (simp add: MONEY_PAT_def pattern_defs char_defs regex_defs)

lemma findall_CAPS_empty: "findall E False CAPS_PAT [] = []"
  by (simp add: CAPS_PAT_def pattern_defs char_defs regex_defs)

lemma party_loop_empty: "party_loop E PARTY_PATTERNS [] [] = []"
  by (simp add: PARTY_PATTERNS_def pattern_defs char_defs regex_defs)

lemma extract_parties_empty: "extract_parties E [] = []"
  by (simp add: extract_parties_def split_def splitlines_def party_loop_empty findall_CAPS_empty)

lemma extract_money_empty: "extract_money E [] = []"
  by (simp add: extract_money_def findall_MONEY_empty fromkeys_def)

lemma set_list_empty: "set_list_ok E \<Longrightarrow> set_list E [] = []"
proof -
  assume "set_list_ok E"
  then have "set (set_list E []) = set []" unfolding set_list_ok_def by blast
  then show ?thesis by simp
qed

lemma extract_dates_empty: "set_list_ok E \<Longrightarrow> extract_dates E [] = []"
  by (simp add: extract_dates_def date_matches_def findall_DATE_empty findall_FALLBACK_empty
      set_list_empty)

text \<open>
  Claim C7.  Analyzing the empty text gives a complete record, with no error: the
  parties, dates, money values, obligation sentences, termination sentences and top
  keywords are all empty and the short summary is the empty string.  The tokenizers are
  those of NLTK, which find no sentence and no word in the empty text.
\<close>

theorem analyze_empty_text:
  assumes "sent_tokenize E [] = []" and "word_tokenize E [] = []" and "set_list_ok E"
  shows "analyze_text E [] =
           \<lparr> parties = [], dates_found = [], money_values = [], obligation_sentences = [],
             termination_sentences = [], top_keywords = [], short_summary = [] \<rparr>"
  using assms
  by (simp add: analyze_text_def extract_parties_empty extract_money_empty extract_dates_empty
      find_sentences_by_keywords_def keyword_summary_def content_words_def Counter_def
      most_common_def)

theorem analyze_empty_text_witness:
  "sent_tokenize demo_env [] = [] \<and> word_tokenize demo_env [] = [] \<and> set_list_ok demo_env \<and>
   analyze_text demo_env [] =
     \<lparr> parties = [], dates_found = [], money_values = [], obligation_sentences = [],
       termination_sentences = [], top_keywords = [], short_summary = [] \<rparr>"
proof -
  have s: "sent_tokenize demo_env [] = []" by (simp add: demo_env_def one_sentence_def)
  have w: "word_tokenize demo_env [] = []" by (simp add: demo_env_def split_def)
  show ?thesis using s w set_list_ok_demo analyze_empty_text [OF s w set_list_ok_demo] by simp
qed

section \<open>Sentences found by keywords\<close>

lemma any_keyword_iff: "any_keyword low kws \<longleftrightarrow> (\<exists>kw \<in> set kws. py_in kw low)"
  by (induction kws) auto

lemma sentence_loop_eq:
  "sentence_loop E kws sents = map strip (filter (\<lambda>s. any_keyword (str_lower E s) kws) sents)"
  by (induction sents) auto

lemma starts_with_iff: "starts_with kw s \<longleftrightarrow> (\<exists>v. s = kw @ v)"
  by (induction kw s rule: starts_with.induct) auto

lemma py_in_iff: "py_in kw s \<longleftrightarrow> (\<exists>u v. s = u @ kw @ v)"
proof (induction s)
  case Nil
  then show ?case by auto
next
  case (Cons c cs)
  show ?case
  proof
    assume "py_in kw (c # cs)"
    then consider "starts_with kw (c # cs)" | "py_in kw cs" by auto
    then show "\<exists>u v. c # cs = u @ kw @ v"
    proof cases
      case 1
      then obtain v where "c # cs = kw @ v" using starts_with_iff by blast
      then have "c # cs = [] @ kw @ v" by simp
      then show ?thesis by blast
    next
      case 2
      then obtain u v where "cs = u @ kw @ v" using Cons.IH by blast
      then have "c # cs = (c # u) @ kw @ v" by simp
      then show ?thesis by blast
    qed
  next
    assume "\<exists>u v. c # cs = u @ kw @ v"
    then obtain u v where uv: "c # cs = u @ kw @ v" by blast
    show "py_in kw (c # cs)"
    proof (cases u)
      case Nil
      with uv have "starts_with kw (c # cs)" using starts_with_iff by auto
      then show ?thesis by simp
    next
      case (Cons a u')
      with uv have "cs = u' @ kw @ v" by simp
      then have "py_in kw cs" using Cons.IH by blast
      then show ?thesis by simp
    qed
  qed
qed

lemma dropWhile_keeps:
  "kw \<noteq> [] \<Longrightarrow> \<not> P (hd kw) \<Longrightarrow> \<exists>a. dropWhile P (u @ kw @ v) = a @ kw @ v"
proof (induction u)
  case Nil
  then have "dropWhile P (kw @ v) = kw @ v" by (cases kw) auto
  then have "dropWhile P ([] @ kw @ v) = [] @ kw @ v" by simp
  then show ?case by blast
next
  case (Cons c u)
  show ?case
  proof (cases "P c")
    case True
    then show ?thesis using Cons by simp
  next
    case False
    then have "dropWhile P ((c # u) @ kw @ v) = (c # u) @ kw @ v" by simp
    then show ?thesis by blast
  qed
qed

lemma py_in_strip:
  assumes "py_in kw t" and "kw \<noteq> []" and "\<not> is_space (hd kw)" and "\<not> is_space (last kw)"
  shows "py_in kw (strip t)"
proof -
  obtain u v where t: "t = u @ kw @ v" using assms(1) py_in_iff by blast
  obtain a where a: "dropWhile is_space t = a @ kw @ v"
    using dropWhile_keeps [of kw is_space u v] assms(2,3) t by blast
  have r: "rev (dropWhile is_space t) = rev v @ rev kw @ rev a" using a by simp
  have "rev kw \<noteq> []" using assms(2) by simp
  moreover have "\<not> is_space (hd (rev kw))" using assms(2,4) by (simp add: hd_rev)
  ultimately obtain b where "dropWhile is_space (rev v @ rev kw @ rev a) = b @ rev kw @ rev a"
    using dropWhile_keeps [of "rev kw" is_space "rev v" "rev a"] by blast
  then have "strip t = a @ kw @ rev b" by (simp add: strip_def r)
  then show ?thesis using py_in_iff by blast
qed

lemma keyword_survives_strip:
  "lower_strip_ok E \<Longrightarrow> trimmed kw \<Longrightarrow> py_in kw (str_lower E s) \<Longrightarrow>
   py_in kw (str_lower E (strip s))"
  by (simp add: lower_strip_ok_def py_in_strip trimmed_def)

lemma found_sentences_contain:
  assumes "lower_strip_ok E" and "list_all trimmed kws"
    and "r \<in> set (sentence_loop E kws sents)"
  shows "\<exists>kw \<in> set kws. py_in kw (str_lower E r)"
proof -
  from assms(3) obtain s where s: "s \<in> set sents" "any_keyword (str_lower E s) kws" "r = strip s"
    by (auto simp: sentence_loop_eq)
  then obtain kw where kw: "kw \<in> set kws" "py_in kw (str_lower E s)"
    using any_keyword_iff by blast
  then have "trimmed kw" using assms(2) by (simp add: list_all_iff)
  then have "py_in kw (str_lower E r)" using kw s assms(1) keyword_survives_strip by blast
  then show ?thesis using kw by blast
qed

lemma cut_sentences_contain:
  assumes "lower_strip_ok E" and "list_all trimmed kws"
    and "r \<in> set (take n (sentence_loop E kws sents))"
  shows "\<exists>kw \<in> set kws. py_in kw (str_lower E r)"
proof -
  have "r \<in> set (sentence_loop E kws sents)" using assms(3) by (rule in_set_takeD)
  then show ?thesis using assms(1,2) found_sentences_contain by blast
qed

lemma OBL_trimmed: "list_all trimmed OBL_KEYWORDS"
  by (simp add: OBL_KEYWORDS_def trimmed_def str_def is_space_def)

lemma TERM_trimmed: "list_all trimmed TERMINATION_KEYWORDS"
  by (simp add: TERMINATION_KEYWORDS_def trimmed_def str_def is_space_def)

lemma sentence_loop_filter:
  "sentence_loop E kws sents =
     map strip (filter (\<lambda>s. \<exists>kw \<in> set kws. py_in kw (str_lower E s)) sents)"
  by (simp add: sentence_loop_eq any_keyword_iff)

lemma obligation_sentences_eq:
  "obligation_sentences (analyze_text E text) =
     take 10 (sentence_loop E OBL_KEYWORDS (sent_tokenize E text))"
  by (simp add: analyze_text_def Let_def find_sentences_by_keywords_def)

lemma termination_sentences_eq:
  "termination_sentences (analyze_text E text) =
     take 8 (sentence_loop E TERMINATION_KEYWORDS (sent_tokenize E text))"
  by (simp add: analyze_text_def Let_def find_sentences_by_keywords_def)

text \<open>
  Claim C9.  Every sentence in \<open>obligation_sentences\<close> contains an obligation keyword, and
  every sentence in \<open>termination_sentences\<close> a termination keyword, as a substring of its
  lower-case form (\<open>str.lower\<close>, with its property that trimming and lowering commute).  A
  sentence of the tokenizer that contains one or several keywords of a list gives exactly
  one entry of that list: the lists are the trimmed qualifying sentences, in the order of
  the text, cut to 10 and to 8.
\<close>

theorem keyword_sentences:
  "(lower_strip_ok E \<longrightarrow>
      (\<forall>s \<in> set (obligation_sentences (analyze_text E text)).
         \<exists>kw \<in> set OBL_KEYWORDS. py_in kw (str_lower E s)) \<and>
      (\<forall>s \<in> set (termination_sentences (analyze_text E text)).
         \<exists>kw \<in> set TERMINATION_KEYWORDS. py_in kw (str_lower E s))) \<and>
   obligation_sentences (analyze_text E text) =
     take 10 (map strip (filter (\<lambda>s. \<exists>kw \<in> set OBL_KEYWORDS. py_in kw (str_lower E s))
                                (sent_tokenize E text))) \<and>
   termination_sentences (analyze_text E text) =
     take 8 (map strip (filter (\<lambda>s. \<exists>kw \<in> set TERMINATION_KEYWORDS. py_in kw (str_lower E s))
                               (sent_tokenize E text)))"
proof (intro conjI impI ballI)
  fix s assume "lower_strip_ok E" and "s \<in> set (obligation_sentences (analyze_text E text))"
  then show "\<exists>kw \<in> set OBL_KEYWORDS. py_in kw (str_lower E s)"
    unfolding obligation_sentences_eq using cut_sentences_contain [OF _ OBL_trimmed] by blast
next
  fix s assume "lower_strip_ok E" and "s \<in> set (termination_sentences (analyze_text E text))"
  then show "\<exists>kw \<in> set TERMINATION_KEYWORDS. py_in kw (str_lower E s)"
    unfolding termination_sentences_eq using cut_sentences_contain [OF _ TERM_trimmed] by blast
next
  show "obligation_sentences (analyze_text E text) =
     take 10 (map strip (filter (\<lambda>s. \<exists>kw \<in> set OBL_KEYWORDS. py_in kw (str_lower E s))
                                (sent_tokenize E text)))"
    unfolding obligation_sentences_eq sentence_loop_filter ..
next
  show "termination_sentences (analyze_text E text) =
     take 8 (map strip (filter (\<lambda>s. \<exists>kw \<in> set TERMINATION_KEYWORDS. py_in kw (str_lower E s))
                               (sent_tokenize E text)))"
    unfolding termination_sentences_eq sentence_loop_filter ..
qed

lemma is_space_to_lower: "is_space (to_lower c) = is_space c"
  by (simp add: is_space_def to_lower_def ascii_upper_def)

lemma ascii_lower_strip: "ascii_str_lower (strip s) = strip (ascii_str_lower s)"
proof -
  have c: "is_space \<circ> to_lower = is_space" by (rule ext) (simp add: is_space_to_lower)
  show ?thesis by (simp add: ascii_str_lower_def strip_def rev_map dropWhile_map c)
qed

lemma lower_strip_ok_demo: "lower_strip_ok demo_env"
  by (simp add: lower_strip_ok_def demo_env_def ascii_lower_strip)

theorem keyword_sentences_witness:
  "lower_strip_ok demo_env \<and>
   obligation_sentences (analyze_text demo_env notice_text) = [str ''We shall give notice''] \<and>
   termination_sentences (analyze_text demo_env notice_text) = [str ''We shall give notice''] \<and>
   (\<exists>kw \<in> set OBL_KEYWORDS. py_in kw (str_lower demo_env (str ''We shall give notice''))) \<and>
   (\<exists>kw \<in> set TERMINATION_KEYWORDS. py_in kw (str_lower demo_env (str ''We shall give notice'')))"
proof -
  have o: "obligation_sentences (analyze_text demo_env notice_text) = [str ''We shall give notice'']"
    by (simp add: obligation_sentences_eq demo_env_def one_sentence_def notice_text_def str_def
        OBL_KEYWORDS_def ascii_str_lower_def to_lower_def ascii_upper_def strip_def is_space_def)
  have t: "termination_sentences (analyze_text demo_env notice_text) = [str ''We shall give notice'']"
    by (simp add: termination_sentences_eq demo_env_def one_sentence_def notice_text_def str_def
        TERMINATION_KEYWORDS_def ascii_str_lower_def to_lower_def ascii_upper_def strip_def
        is_space_def)
  note k = keyword_sentences [of demo_env notice_text, THEN conjunct1, rule_format,
      OF lower_strip_ok_demo]
  have a: "\<forall>s \<in> set [str ''We shall give notice''].
             \<exists>kw \<in> set OBL_KEYWORDS. py_in kw (str_lower demo_env s)"
    using k [THEN conjunct1] unfolding o .
  have b: "\<forall>s \<in> set [str ''We shall give notice''].
             \<exists>kw \<in> set TERMINATION_KEYWORDS. py_in kw (str_lower demo_env s)"
    using k [THEN conjunct2] unfolding t .
  show ?thesis using a b o t lower_strip_ok_demo by simp
qed

section \<open>The keyword summary\<close>

subsection \<open>The position of the first occurrence\<close>

lemma first_index_Nil: "first_index [] a = 0"
  by (simp add: first_index_def)

lemma first_index_Cons: "first_index (x # xs) a = (if x = a then 0 else Suc (first_index xs a))"
  by (simp add: first_index_def)

lemma first_index_less: "first_index xs a < length xs \<longleftrightarrow> a \<in> set xs"
  by (induction xs) (auto simp: first_index_Nil first_index_Cons)

lemma first_index_snoc:
  "first_index (xs @ [w]) a =
     (if a \<in> set xs then first_index xs a else if a = w then length xs else Suc (length xs))"
  by (induction xs) (auto simp: first_index_Nil first_index_Cons)

lemma first_index_nth: "distinct xs \<Longrightarrow> i < length xs \<Longrightarrow> first_index xs (xs ! i) = i"
proof (induction xs arbitrary: i)
  case Nil
  then show ?case by simp
next
  case (Cons x xs)
  then show ?case by (cases i) (auto simp: first_index_Cons)
qed

lemma first_index_filter:
  "x \<in> set xs \<Longrightarrow> y \<in> set xs \<Longrightarrow> P x \<Longrightarrow> P y \<Longrightarrow>
   first_index (filter P xs) x < first_index (filter P xs) y \<longleftrightarrow>
   first_index xs x < first_index xs y"
  by (induction xs) (auto simp: first_index_Cons)

lemma first_index_map_fst:
  "distinct (map fst d) \<Longrightarrow> x \<in> set d \<Longrightarrow> first_index (map fst d) (fst x) = first_index d x"
proof (induction d)
  case Nil
  then show ?case by simp
next
  case (Cons z d)
  show ?case
  proof (cases "z = x")
    case True
    then show ?thesis by (simp add: first_index_Cons)
  next
    case False
    then have x: "x \<in> set d" using Cons.prems by simp
    then have "fst z \<noteq> fst x" using Cons.prems by force
    then show ?thesis using Cons x False by (simp add: first_index_Cons)
  qed
qed

subsection \<open>The counter\<close>

lemma keys_count_up:
  "map fst (count_up w d) = (if w \<in> set (map fst d) then map fst d else map fst d @ [w])"
proof (induction d)
  case Nil
  then show ?case by simp
next
  case (Cons kv d)
  obtain k n where kv: "kv = (k, n)" by (cases kv)
  show ?case
  proof (cases "k = w")
    case True
    then show ?thesis using kv by simp
  next
    case False
    then show ?thesis using kv Cons.IH by simp
  qed
qed

lemma Counter_snoc: "Counter (ws @ [w]) = count_up w (Counter ws)"
  by (simp add: Counter_def)

lemma set_keys_Counter: "set (map fst (Counter ws)) = set ws"
proof (induction ws rule: rev_induct)
  case Nil
  then show ?case by (simp add: Counter_def)
next
  case (snoc w ws)
  then show ?case by (auto simp: Counter_snoc keys_count_up)
qed

lemma keys_Counter_snoc:
  "map fst (Counter (ws @ [w])) =
     (if w \<in> set ws then map fst (Counter ws) else map fst (Counter ws) @ [w])"
  using set_keys_Counter [of ws] by (simp add: Counter_snoc keys_count_up)

lemma distinct_keys_Counter: "distinct (map fst (Counter ws))"
proof (induction ws rule: rev_induct)
  case Nil
  then show ?case by (simp add: Counter_def)
next
  case (snoc w ws)
  then show ?case using set_keys_Counter [of ws] by (simp add: keys_Counter_snoc)
qed

lemma map_of_count_up:
  "map_of (count_up w d) k =
     (if k = w then Some (case map_of d w of None \<Rightarrow> 1 | Some n \<Rightarrow> n + 1) else map_of d k)"
  by (induction d) auto

lemma map_of_Counter:
  "map_of (Counter ws) k = (if k \<in> set ws then Some (count_list ws k) else None)"
proof (induction ws rule: rev_induct)
  case Nil
  then show ?case by (simp add: Counter_def)
next
  case (snoc w ws)
  then show ?case by (auto simp: Counter_snoc map_of_count_up)
qed

lemma Counter_counts: "(k, n) \<in> set (Counter ws) \<Longrightarrow> n = count_list ws k \<and> k \<in> set ws"
proof -
  assume "(k, n) \<in> set (Counter ws)"
  then have "map_of (Counter ws) k = Some n"
    using map_of_eq_Some_iff [OF distinct_keys_Counter [of ws]] by blast
  then show ?thesis by (simp add: map_of_Counter split: if_splits)
qed

lemma keys_order:
  "a \<in> set ws \<Longrightarrow> b \<in> set ws \<Longrightarrow>
   first_index (map fst (Counter ws)) a < first_index (map fst (Counter ws)) b \<longleftrightarrow>
   first_index ws a < first_index ws b"
proof (induction ws rule: rev_induct)
  case Nil
  then show ?case by simp
next
  case (snoc w ws)
  have len: "\<And>x. x \<in> set ws \<Longrightarrow> first_index (map fst (Counter ws)) x < length (map fst (Counter ws))"
    using first_index_less [of "map fst (Counter ws)"] set_keys_Counter [of ws] by blast
  have len2: "\<And>x. x \<in> set ws \<Longrightarrow> first_index ws x < length ws"
    using first_index_less [of ws] by blast
  show ?case
  proof (cases "a \<in> set ws")
    case a: True
    show ?thesis
    proof (cases "b \<in> set ws")
      case b: True
      then show ?thesis using a snoc.IH set_keys_Counter [of ws]
        by (simp add: keys_Counter_snoc first_index_snoc)
    next
      case b: False
      then have "b = w" using snoc.prems by simp
      then show ?thesis using a b len [OF a] len2 [OF a] set_keys_Counter [of ws]
        by (simp add: keys_Counter_snoc first_index_snoc)
    qed
  next
    case a: False
    then have aw: "a = w" using snoc.prems by simp
    show ?thesis
    proof (cases "b \<in> set ws")
      case b: True
      then show ?thesis using a aw len [OF b] len2 [OF b] set_keys_Counter [of ws]
        by (simp add: keys_Counter_snoc first_index_snoc)
    next
      case b: False
      then have "b = w" using snoc.prems by simp
      then show ?thesis using aw by simp
    qed
  qed
qed

lemma distinct_Counter: "distinct (Counter ws)"
  using distinct_keys_Counter [of ws] by (simp add: distinct_map)

lemma length_Counter: "length (Counter ws) = card (set ws)"
proof -
  have "card (set (map fst (Counter ws))) = length (map fst (Counter ws))"
    using distinct_keys_Counter [of ws] by (rule distinct_card)
  then show ?thesis unfolding set_keys_Counter by simp
qed

lemma length_most_common: "length (most_common n (Counter ws)) = min (nat n) (card (set ws))"
  by (simp add: most_common_def length_Counter min.commute)

subsection \<open>The number of keywords\<close>

lemma length_keyword_summary_eq:
  "length (keyword_summary E text top_n_arg) =
     min (nat (case top_n_arg of None \<Rightarrow> 10 | Some n \<Rightarrow> n)) (card (set (content_words E text)))"
  by (simp add: keyword_summary_def Let_def length_most_common)

lemma top_keywords_eq: "top_keywords (analyze_text E text) = keyword_summary E text (Some 12)"
  by (simp add: analyze_text_def Let_def)

lemma content_twelve_words:
  "content_words demo_env twelve_words =
     map str [''alpha'', ''beta'', ''gamma'', ''delta'', ''epsilon'', ''zeta'', ''eta'', ''theta'',
              ''iota'', ''kappa'', ''lambda'', ''mu'']"
  by (simp add: content_words_def demo_env_def twelve_words_def split_def str_def is_space_def
      ascii_isalpha_def ascii_alpha_def ascii_upper_def ascii_lower_def ascii_str_lower_def
      to_lower_def)

lemma card_twelve_words: "card (set (content_words demo_env twelve_words)) = 12"
proof -
  have "distinct (content_words demo_env twelve_words)"
    unfolding content_twelve_words by (simp add: str_def)
  then have "card (set (content_words demo_env twelve_words)) =
             length (content_words demo_env twelve_words)" by (rule distinct_card)
  then show ?thesis by (simp add: content_twelve_words)
qed

text \<open>
  Claim C5 says that the summarizer called without \<open>top_n\<close> returns 12 keywords.  The
  default of \<open>keyword_summary\<close> is 10: on a text of twelve distinct qualifying words the
  default call does not return 12 keywords.
\<close>

theorem keyword_summary_default_counterexample:
  "12 \<le> card (set (content_words demo_env twelve_words)) \<and>
   length (keyword_summary demo_env twelve_words None) \<noteq> 12"
  by (simp add: card_twelve_words length_keyword_summary_eq)

text \<open>
  Claim C5, amended.  Called without \<open>top_n\<close>, the summarizer returns exactly 10 keywords
  for a text with at least 10 distinct qualifying words.  The 12 is what \<open>analyze_contract\<close>
  passes: \<open>top_keywords\<close> has exactly 12 entries for a text with at least 12 distinct
  qualifying words.
\<close>

theorem keyword_summary_default:
  "(10 \<le> card (set (content_words E text)) \<longrightarrow> length (keyword_summary E text None) = 10) \<and>
   (12 \<le> card (set (content_words E text)) \<longrightarrow> length (top_keywords (analyze_text E text)) = 12)"
  by (simp add: length_keyword_summary_eq top_keywords_eq)

theorem keyword_summary_default_witness:
  "10 \<le> card (set (content_words demo_env twelve_words)) \<and>
   12 \<le> card (set (content_words demo_env twelve_words)) \<and>
   length (keyword_summary demo_env twelve_words None) = 10 \<and>
   length (top_keywords (analyze_text demo_env twelve_words)) = 12"
  using keyword_summary_default [of demo_env twelve_words] by (simp add: card_twelve_words)

subsection \<open>The ranking\<close>

lemma ranked_pairs:
  fixes f :: "'a \<times> nat \<Rightarrow> int"
  assumes f: "f = (\<lambda>kv. - int (snd kv))"
    and L: "L = sort_key f (Counter ws)"
    and ij: "i < j" "j < length L"
  shows "outranks ws (fst (L ! i)) (fst (L ! j))"
proof -
  let ?d = "Counter ws"
  have setL: "set L = set ?d" by (simp add: L)
  have dL: "distinct L" by (simp add: L distinct_Counter)
  have i: "i < length L" using ij by simp
  have mi: "L ! i \<in> set ?d" using i setL nth_mem by blast
  have mj: "L ! j \<in> set ?d" using ij(2) setL nth_mem by blast
  have ci: "snd (L ! i) = count_list ws (fst (L ! i)) \<and> fst (L ! i) \<in> set ws"
    using Counter_counts [of "fst (L ! i)" "snd (L ! i)" ws] mi by simp
  have cj: "snd (L ! j) = count_list ws (fst (L ! j)) \<and> fst (L ! j) \<in> set ws"
    using Counter_counts [of "fst (L ! j)" "snd (L ! j)" ws] mj by simp
  have "sorted (map f L)" by (simp add: L)
  then have "map f L ! i \<le> map f L ! j"
    using ij by (simp add: sorted_iff_nth_mono)
  then have le: "f (L ! i) \<le> f (L ! j)" using ij by simp
  then have ge: "snd (L ! j) \<le> snd (L ! i)" by (simp add: f)
  show ?thesis
  proof (cases "snd (L ! j) = snd (L ! i)")
    case False
    then show ?thesis using ge ci cj by (simp add: outranks_def)
  next
    case True
    let ?P = "\<lambda>y. f y = f (L ! i)"
    have Pi: "?P (L ! i)" by simp
    have Pj: "?P (L ! j)" using True by (simp add: f)
    have st: "filter ?P L = filter ?P ?d" unfolding L by (rule sort_key_stable)
    have "first_index L (L ! i) < first_index L (L ! j)"
      using ij i dL by (simp add: first_index_nth)
    then have "first_index (filter ?P L) (L ! i) < first_index (filter ?P L) (L ! j)"
      using first_index_filter [of "L ! i" L "L ! j" ?P] Pi Pj i ij by simp
    then have "first_index (filter ?P ?d) (L ! i) < first_index (filter ?P ?d) (L ! j)"
      by (simp add: st)
    then have "first_index ?d (L ! i) < first_index ?d (L ! j)"
      using first_index_filter [of "L ! i" ?d "L ! j" ?P] Pi Pj mi mj by simp
    then have "first_index (map fst ?d) (fst (L ! i)) < first_index (map fst ?d) (fst (L ! j))"
      using first_index_map_fst [OF distinct_keys_Counter mi]
        first_index_map_fst [OF distinct_keys_Counter mj] by simp
    then have "first_index ws (fst (L ! i)) < first_index ws (fst (L ! j))"
      using keys_order [of "fst (L ! i)" ws "fst (L ! j)"] ci cj by simp
    then show ?thesis using True ci cj by (simp add: outranks_def)
  qed
qed

lemma ranked_summary:
  fixes ws :: "'a list"
  assumes r: "r = map fst (take n (sort_key (\<lambda>kv. - int (snd kv)) (Counter ws)))"
  shows "distinct r" and "set r \<subseteq> set ws"
    and "\<And>i j. i < j \<Longrightarrow> j < length r \<Longrightarrow> outranks ws (r ! i) (r ! j)"
    and "\<And>a b. a \<in> set r \<Longrightarrow> b \<in> set ws \<Longrightarrow> b \<notin> set r \<Longrightarrow> outranks ws a b"
proof -
  define f :: "'a \<times> nat \<Rightarrow> int" where "f = (\<lambda>kv. - int (snd kv))"
  define L where "L = sort_key f (Counter ws)"
  define K where "K = map fst L"
  have rK: "r = take n K" by (simp add: r K_def L_def f_def take_map)
  have dK: "distinct K"
    using distinct_keys_Counter [of ws] by (simp add: K_def L_def distinct_map)
  have sK: "set K = set ws"
    using set_keys_Counter [of ws] by (simp add: K_def L_def)
  show "distinct r" using dK by (simp add: rK)
  show "set r \<subseteq> set ws" using sK set_take_subset [of n K] by (simp add: rK)
  have lK: "length K = length L" by (simp add: K_def)
  have nK: "\<And>i. i < length L \<Longrightarrow> K ! i = fst (L ! i)" by (simp add: K_def)
  show pairs: "\<And>i j. i < j \<Longrightarrow> j < length r \<Longrightarrow> outranks ws (r ! i) (r ! j)"
  proof -
    fix i j :: nat assume ij: "i < j" "j < length r"
    then have j: "j < n" "j < length L" by (simp_all add: rK lK)
    then have "r ! i = fst (L ! i)" "r ! j = fst (L ! j)" using ij nK by (simp_all add: rK)
    then show "outranks ws (r ! i) (r ! j)"
      using ranked_pairs [OF f_def L_def ij(1) j(2)] by simp
  qed
  show "\<And>a b. a \<in> set r \<Longrightarrow> b \<in> set ws \<Longrightarrow> b \<notin> set r \<Longrightarrow> outranks ws a b"
  proof -
    fix a b assume a: "a \<in> set r" and b: "b \<in> set ws" "b \<notin> set r"
    from a obtain i where i: "i < length r" "r ! i = a" by (auto simp: in_set_conv_nth)
    then have i': "i < n" "i < length L" by (simp_all add: rK lK)
    have "b \<in> set K" using b(1) sK by simp
    then obtain j where j: "j < length K" "K ! j = b" by (auto simp: in_set_conv_nth)
    have "\<not> j < n"
    proof
      assume "j < n"
      then have "j < length r" "r ! j = b" using j by (simp_all add: rK)
      then have "b \<in> set r" using nth_mem by blast
      then show False using b(2) by simp
    qed
    then have ij: "i < j" using i' by simp
    have jL: "j < length L" using j lK by simp
    have "a = fst (L ! i)" using i i' nK by (simp add: rK)
    moreover have "b = fst (L ! j)" using j jL nK by simp
    ultimately show "outranks ws a b" using ranked_pairs [OF f_def L_def ij jL] by simp
  qed
qed

lemma keyword_summary_eq:
  "keyword_summary E text top_n_arg =
     map fst (take (nat (case top_n_arg of None \<Rightarrow> 10 | Some n \<Rightarrow> n))
               (sort_key (\<lambda>kv. - int (snd kv)) (Counter (content_words E text))))"
  by (simp add: keyword_summary_def Let_def most_common_def)

text \<open>
  Claim C8.  The keywords are ranked by decreasing count, and two words of equal count by
  their first occurrence among the counted words of the text: \<open>outranks ws a b\<close> says that
  \<open>a\<close> occurs more often in \<open>ws\<close> than \<open>b\<close>, or as often and first before \<open>b\<close>.  The summary
  lists distinct counted words, as many as asked for (all of them when there are fewer);
  each listed word outranks the listed words after it, and every counted word that is left
  out.  So the summary is the ranking of all the counted words, cut to its first entries.
\<close>

theorem keyword_ranking:
  "distinct (keyword_summary E text top_n_arg) \<and>
   set (keyword_summary E text top_n_arg) \<subseteq> set (content_words E text) \<and>
   length (keyword_summary E text top_n_arg) =
     min (nat (case top_n_arg of None \<Rightarrow> 10 | Some n \<Rightarrow> n)) (card (set (content_words E text))) \<and>
   (\<forall>i j. i < j \<and> j < length (keyword_summary E text top_n_arg) \<longrightarrow>
      outranks (content_words E text)
        (keyword_summary E text top_n_arg ! i) (keyword_summary E text top_n_arg ! j)) \<and>
   (\<forall>a \<in> set (keyword_summary E text top_n_arg).
      \<forall>b \<in> set (content_words E text) - set (keyword_summary E text top_n_arg).
        outranks (content_words E text) a b)"
proof -
  note r = ranked_summary [OF keyword_summary_eq [of E "text" top_n_arg]]
  have "\<forall>i j. i < j \<and> j < length (keyword_summary E text top_n_arg) \<longrightarrow>
      outranks (content_words E text)
        (keyword_summary E text top_n_arg ! i) (keyword_summary E text top_n_arg ! j)"
    using r(3) by blast
  moreover have "\<forall>a \<in> set (keyword_summary E text top_n_arg).
      \<forall>b \<in> set (content_words E text) - set (keyword_summary E text top_n_arg).
        outranks (content_words E text) a b"
    using r(4) by blast
  ultimately show ?thesis using r(1) r(2) length_keyword_summary_eq [of E "text" top_n_arg]
    by blast
qed

lemma content_tie_text:
  "content_words demo_env tie_text = map str [''tax'', ''fee'', ''rent'', ''fee'', ''rent'']"
  by (simp add: content_words_def demo_env_def tie_text_def split_def str_def is_space_def
      ascii_isalpha_def ascii_alpha_def ascii_upper_def ascii_lower_def ascii_str_lower_def
      to_lower_def)

lemma summary_tie_text:
  "keyword_summary demo_env tie_text (Some 2) = map str [''fee'', ''rent'']"
  by (simp add: keyword_summary_def content_tie_text Counter_def most_common_def str_def)

theorem keyword_ranking_witness:
  "content_words demo_env tie_text = map str [''tax'', ''fee'', ''rent'', ''fee'', ''rent''] \<and>
   keyword_summary demo_env tie_text (Some 2) = map str [''fee'', ''rent''] \<and>
   outranks (content_words demo_env tie_text) (str ''fee'') (str ''rent'') \<and>
   outranks (content_words demo_env tie_text) (str ''rent'') (str ''tax'')"
proof -
  note k = keyword_ranking [of demo_env tie_text "Some 2"]
  have p: "\<forall>i j. i < j \<and> j < length (keyword_summary demo_env tie_text (Some 2)) \<longrightarrow>
      outranks (content_words demo_env tie_text)
        (keyword_summary demo_env tie_text (Some 2) ! i)
        (keyword_summary demo_env tie_text (Some 2) ! j)"
    using k by blast
  have q: "\<forall>a \<in> set (keyword_summary demo_env tie_text (Some 2)).
      \<forall>b \<in> set (content_words demo_env tie_text) - set (keyword_summary demo_env tie_text (Some 2)).
        outranks (content_words demo_env tie_text) a b"
    using k by blast
  have a: "outranks (content_words demo_env tie_text) (str ''fee'') (str ''rent'')"
    using p [rule_format, of 0 1] by (simp add: summary_tie_text)
  have "str ''rent'' \<in> set (keyword_summary demo_env tie_text (Some 2))"
    by (simp add: summary_tie_text)
  moreover have "str ''tax'' \<in> set (content_words demo_env tie_text) -
                   set (keyword_summary demo_env tie_text (Some 2))"
    by (simp add: summary_tie_text content_tie_text str_def)
  ultimately have b: "outranks (content_words demo_env tie_text) (str ''rent'') (str ''tax'')"
    using q by blast
  show ?thesis using a b content_tie_text summary_tie_text by simp
qed

section \<open>The scenario of the specification\<close>

lemma scenario_clean: "join (str '' '') (split scenario) = scenario"
  by (simp add: scenario_def split_def str_def is_space_def rupee_def)

lemma party_search_scenario:
  "map_option groups (search E True (PARTY_PATTERNS ! 0) scenario) =
     Some [Some (str ''Acme Corp''), Some (str ''Beta'')]"
  by (simp add: PARTY_PATTERNS_def pattern_defs char_defs regex_defs str_def scenario_def)

lemma clean_group_Acme_Corp: "clean_group E (str ''Acme Corp'') = str ''Acme Corp''"
  by (simp add: clean_group_def SPACES_PAT_def PAREN_PAT_def pattern_defs char_defs regex_defs
      str_def strip_def)

lemma clean_group_Beta: "clean_group E (str ''Beta'') = str ''Beta''"
  by (simp add: clean_group_def SPACES_PAT_def PAREN_PAT_def pattern_defs char_defs regex_defs
      str_def strip_def)

lemma party_loop_scenario:
  "party_loop E PARTY_PATTERNS scenario [] = [str ''Acme Corp'', str ''Beta'']"
proof -
  obtain p ps where P: "PARTY_PATTERNS = p # ps" and p: "p = PARTY_PATTERNS ! 0"
    by (simp add: PARTY_PATTERNS_def)
  obtain m where m: "search E True p scenario = Some m"
    and g: "groups m = [Some (str ''Acme Corp''), Some (str ''Beta'')]"
    using party_search_scenario [of E] unfolding p by (cases "search E True (PARTY_PATTERNS ! 0) scenario") auto
  have n: "str ''Acme Corp'' \<noteq> []" "str ''Beta'' \<noteq> []" by (simp_all add: str_def)
  have l: "length (str ''Acme Corp'') > 2" "length (str ''Beta'') > 2" by (simp_all add: str_def)
  show ?thesis
    unfolding P using n l
    by (simp add: m g clean_group_Acme_Corp clean_group_Beta Let_def)
qed

text \<open>
  Claim C1 expects the parties of the scenario to include \<open>Acme Corp\<close> and \<open>Beta LLC\<close>.  The
  party extractor returns \<open>Acme Corp\<close> and \<open>Beta\<close>: the last group of the pattern is the lazy
  \<open>(.+?)\<close> before a word boundary, which ends after the first word of the second party.
  \<open>Beta LLC\<close> is not in the list.
\<close>

theorem extract_parties_scenario:
  "extract_parties E scenario = [str ''Acme Corp'', str ''Beta''] \<and>
   str ''Beta LLC'' \<notin> set (extract_parties E scenario)"
proof -
  have e: "extract_parties E scenario = [str ''Acme Corp'', str ''Beta'']"
    by (simp add: extract_parties_def scenario_clean party_loop_scenario Let_def)
  show ?thesis unfolding e by (simp add: str_def)
qed

lemma rupee_is_symbol_demo: "rupee_is_symbol demo_env"
  by (simp add: rupee_is_symbol_def demo_env_def no_char_def no_cases_def)

lemma money_matches_scenario:
  assumes "rupee_is_symbol E"
  shows "findall E True MONEY_PAT scenario = []"
proof -
  have r: "\<not> u_word E 8377" "\<not> u_digit E 8377" "u_cases E 8377 = []"
    using assms by (simp_all add: rupee_is_symbol_def rupee_def)
  show ?thesis
    by (simp add: r MONEY_PAT_def pattern_defs char_defs regex_defs str_def scenario_def)
qed

lemma money_matches_joined:
  assumes "rupee_is_symbol E"
  shows "findall E True MONEY_PAT (str ''pay'' @ [rupee] @ str ''50,000 now'') =
           [rupee # str ''50,000'']"
proof -
  have r: "\<not> u_word E 8377" "\<not> u_digit E 8377" "u_cases E 8377 = []"
    using assms by (simp_all add: rupee_is_symbol_def rupee_def)
  show ?thesis
    by (simp add: r MONEY_PAT_def pattern_defs char_defs regex_defs str_def)
qed

text \<open>
  Claim C2 expects the money values of the scenario to include the amount in rupees.  The
  money extractor finds nothing in the scenario: the rule for the rupee sign starts with a
  word boundary, and there is none between a space and the rupee sign, which is not a word
  character.  The rule matches the amount only when the sign follows a word character,
  as in \<open>pay\<close> directly followed by the sign.
\<close>

theorem extract_money_scenario:
  assumes "rupee_is_symbol E"
  shows "extract_money E scenario = [] \<and>
         rupee # str ''50,000'' \<notin> set (extract_money E scenario) \<and>
         extract_money E (str ''pay'' @ [rupee] @ str ''50,000 now'') = [rupee # str ''50,000'']"
proof -
  have a: "extract_money E scenario = []"
    by (simp add: extract_money_def money_matches_scenario [OF assms] fromkeys_def)
  have s: "strip (rupee # str ''50,000'') = rupee # str ''50,000''"
    by (simp add: strip_def str_def rupee_def is_space_def)
  have b: "extract_money E (str ''pay'' @ [rupee] @ str ''50,000 now'') =
                  [rupee # str ''50,000'']"
    unfolding extract_money_def money_matches_joined [OF assms] Let_def list.map s
    by (simp add: fromkeys_def)
  show ?thesis using a b by simp
qed

theorem extract_money_scenario_witness:
  "rupee_is_symbol demo_env \<and> extract_money demo_env scenario = [] \<and>
   extract_money demo_env (str ''pay'' @ [rupee] @ str ''50,000 now'') = [rupee # str ''50,000'']"
  using extract_money_scenario [OF rupee_is_symbol_demo] rupee_is_symbol_demo by simp

section \<open>Duplicates\<close>

lemma strip_no_space_left: "dropWhile is_space (strip s) = strip s"
proof (cases "strip s = []")
  case True
  then show ?thesis by simp
next
  case False
  define u where "u = dropWhile is_space s"
  define ys where "ys = dropWhile is_space (rev u)"
  have t: "strip s = rev ys" by (simp add: strip_def ys_def u_def)
  have ys: "ys \<noteq> []" using False t by simp
  then have u: "u \<noteq> []" unfolding ys_def by auto
  obtain zs where zs: "rev u = zs @ ys" unfolding ys_def
    by (metis takeWhile_dropWhile_id)
  have "last ys = last (rev u)" using zs ys by simp
  then have "hd (strip s) = hd u" using ys u by (simp add: t hd_rev last_rev)
  moreover have "\<not> is_space (hd u)" using u unfolding u_def by (rule hd_dropWhile)
  ultimately have "\<not> is_space (hd (strip s))" by simp
  then show ?thesis using False by (cases "strip s") auto
qed

lemma strip_strip: "strip (strip s) = strip s"
proof -
  have "strip (strip s) = rev (dropWhile is_space (rev (strip s)))"
    unfolding strip_def [of "strip s"] strip_no_space_left ..
  also have "\<dots> = strip s" by (simp add: strip_def)
  finally show ?thesis .
qed

lemma map_strip_trimmed: "set xs \<subseteq> set (map strip ys) \<Longrightarrow> map strip xs = xs"
proof -
  assume s: "set xs \<subseteq> set (map strip ys)"
  have "\<And>x. x \<in> set xs \<Longrightarrow> strip x = x"
  proof -
    fix x assume "x \<in> set xs"
    then obtain y where "x = strip y" using s by auto
    then show "strip x = x" by (simp add: strip_strip)
  qed
  then show ?thesis by (simp add: map_idI)
qed

lemma fromkeys_aux:
  "distinct d \<Longrightarrow>
   distinct (foldl (\<lambda>d x. if x \<in> set d then d else d @ [x]) d xs) \<and>
   set (foldl (\<lambda>d x. if x \<in> set d then d else d @ [x]) d xs) = set d \<union> set xs"
  by (induction xs arbitrary: d) auto

lemma distinct_fromkeys: "distinct (fromkeys xs)"
  using fromkeys_aux [of "[]" xs] by (simp add: fromkeys_def)

lemma set_fromkeys: "set (fromkeys xs) = set xs"
  using fromkeys_aux [of "[]" xs] by (simp add: fromkeys_def)

lemma distinct_money: "distinct (map strip (extract_money E text))"
proof -
  let ?ms = "findall E True MONEY_PAT text"
  have e: "extract_money E text = take 10 (fromkeys (map strip ?ms))"
    by (simp add: extract_money_def)
  have "set (extract_money E text) \<subseteq> set (map strip ?ms)"
    unfolding e using set_take_subset [of 10 "fromkeys (map strip ?ms)"]
    by (simp only: set_fromkeys)
  then have "map strip (extract_money E text) = extract_money E text" by (rule map_strip_trimmed)
  moreover have "distinct (extract_money E text)" unfolding e using distinct_fromkeys
    by (simp add: distinct_fromkeys)
  ultimately show ?thesis by simp
qed

lemma extract_dates_eq:
  "extract_dates E text = take 10 (set_list E (map strip (date_matches E text)))"
  by (simp add: extract_dates_def)

lemma distinct_dates:
  assumes "set_list_ok E"
  shows "distinct (map strip (extract_dates E text))"
proof -
  let ?xs = "map strip (date_matches E text)"
  have d: "distinct (set_list E ?xs)" and s: "set (set_list E ?xs) = set ?xs"
    using assms unfolding set_list_ok_def by blast+
  have "set (extract_dates E text) \<subseteq> set ?xs"
    unfolding extract_dates_eq using set_take_subset [of 10 "set_list E ?xs"] s by simp
  then have "map strip (extract_dates E text) = extract_dates E text" by (rule map_strip_trimmed)
  moreover have "distinct (extract_dates E text)" using d by (simp add: extract_dates_eq)
  ultimately show ?thesis by simp
qed

lemma twice_acme_clean: "join (str '' '') (split twice_acme) = twice_acme"
  by (simp add: twice_acme_def split_def str_def is_space_def)

lemma party_search_twice_0: "search E True (PARTY_PATTERNS ! 0) twice_acme = None"
  by (simp add: PARTY_PATTERNS_def pattern_defs char_defs regex_defs str_def twice_acme_def)

lemma party_search_twice_1:
  "map_option groups (search E True (PARTY_PATTERNS ! 1) twice_acme) =
     Some [None, Some (str ''Acme''), Some (str ''Acme'')]"
  by (simp add: PARTY_PATTERNS_def pattern_defs char_defs regex_defs str_def twice_acme_def)

lemma clean_group_Acme: "clean_group E (str ''Acme'') = str ''Acme''"
  by (simp add: clean_group_def SPACES_PAT_def PAREN_PAT_def pattern_defs char_defs regex_defs
      str_def strip_def)

lemma party_loop_twice_acme:
  "party_loop E PARTY_PATTERNS twice_acme [] = [str ''Acme'', str ''Acme'']"
proof -
  obtain p q ps where P: "PARTY_PATTERNS = p # q # ps"
    and p: "p = PARTY_PATTERNS ! 0" and q: "q = PARTY_PATTERNS ! 1"
    by (simp add: PARTY_PATTERNS_def)
  have m0: "search E True p twice_acme = None" unfolding p by (rule party_search_twice_0)
  obtain m where m: "search E True q twice_acme = Some m"
    and g: "groups m = [None, Some (str ''Acme''), Some (str ''Acme'')]"
    using party_search_twice_1 [of E] unfolding q
    by (cases "search E True (PARTY_PATTERNS ! 1) twice_acme") auto
  have n: "str ''Acme'' \<noteq> []" "length (str ''Acme'') > 2" by (simp_all add: str_def)
  show ?thesis
    unfolding P using n by (simp add: m0 m g clean_group_Acme Let_def)
qed

lemma extract_parties_twice_acme:
  "extract_parties E twice_acme = [str ''Acme'', str ''Acme'']"
  by (simp add: extract_parties_def twice_acme_clean party_loop_twice_acme Let_def)

text \<open>
  Claim C4 says that no list of the result holds the same entry twice.  That holds for the
  money values (\<open>dict.fromkeys\<close>) and for the dates (a set).  The party extractor appends
  the groups of the matching pattern without looking at what it has found: for a text
  that names the same party on both sides of \<open>and\<close> it returns that party twice.  Only the
  heading heuristic checks \<open>c_s not in uniq\<close>.
\<close>

theorem duplicate_parties:
  "extract_parties E twice_acme = [str ''Acme'', str ''Acme''] \<and>
   \<not> distinct (map strip (extract_parties E twice_acme)) \<and>
   distinct (map strip (extract_money E text)) \<and>
   (set_list_ok E \<longrightarrow> distinct (map strip (extract_dates E text)))"
  by (simp add: extract_parties_twice_acme distinct_money distinct_dates)

theorem duplicate_parties_witness:
  "set_list_ok demo_env \<and>
   extract_parties demo_env twice_acme = [str ''Acme'', str ''Acme''] \<and>
   \<not> distinct (map strip (extract_parties demo_env twice_acme)) \<and>
   distinct (map strip (extract_money demo_env two_dates)) \<and>
   distinct (map strip (extract_dates demo_env two_dates))"
  using duplicate_parties [of demo_env two_dates] set_list_ok_demo by blast

section \<open>The order of the dates\<close>






end
